theory Spec2Isabelle
  imports Main
begin

section \<open>Filters of Flax NNX: predicates, the filter DSL and \<open>split\<close>\<close>

text \<open>
  The development follows the notebook \<open>Using Filters\<close>: the predicate \<open>is_param\<close>
  (the shape of every \<open>OfType\<close> filter) and the function \<open>split\<close>, which groups the
  \<open>(path, value)\<close> pairs of a flat state by the first filter that matches.
\<close>

subsection \<open>Python values: classes, paths, entries, exceptions\<close>

text \<open>
  A Python class, as far as \<open>isinstance\<close> and \<open>issubclass\<close> look at it: its name
  (which identifies it) and its direct base classes.
  \<^verbatim>\<open>class SpecialParam(nnx.Param): pass\<close> is \<open>Class ''SpecialParam'' [Param]\<close>.
\<close>

datatype pyclass = Class string "pyclass list"

fun bases :: "pyclass \<Rightarrow> pyclass list" where
  "bases (Class n bs) = bs"

text \<open>
  \<open>issubclass(c, k)\<close>: \<open>k\<close> is \<open>c\<close> itself or is found among the ancestors of \<open>c\<close>
  (Python looks \<open>k\<close> up in the method resolution order of \<open>c\<close>).
\<close>

fun issubclass :: "pyclass \<Rightarrow> pyclass \<Rightarrow> bool" where
  "issubclass (Class n bs) k = (Class n bs = k \<or> list_ex (\<lambda>b. issubclass b k) bs)"

text \<open>The values an attribute can hold: a class object, or something that is no class.\<close>

datatype pyval = VClass pyclass | VStr string | VInt int | VBool bool | VNone

text \<open>\<open>Key\<close> is hashable and comparable; a path is a tuple of keys.\<close>

datatype key = KStr string | KInt int

type_synonym path = "key list"

text \<open>
  The value found at a path: its class (\<open>type(value)\<close>) and the attributes
  \<open>getattr\<close> finds on it. \<^verbatim>\<open>nnx.VariableState(type=nnx.Param, value=0)\<close> has class
  \<open>VariableState\<close> and the attributes \<open>type\<close> and \<open>value\<close>.
\<close>

record entry =
  cls :: pyclass
  attrs :: "string \<rightharpoonup> pyval"

datatype error =
    TypeError
  | AttributeError
  | IndexError
  | ValueError path entry
  | InvalidFilterLiteral

definition isinstance :: "entry \<Rightarrow> pyclass \<Rightarrow> bool" where
  "isinstance v k = issubclass (cls v) k"

definition hasattr :: "entry \<Rightarrow> string \<Rightarrow> bool" where
  "hasattr v name = (attrs v name \<noteq> None)"

definition getattr :: "entry \<Rightarrow> string \<Rightarrow> error + pyval" where
  "getattr v name = (case attrs v name of None \<Rightarrow> Inl AttributeError | Some x \<Rightarrow> Inr x)"

text \<open>\<open>issubclass\<close> applied to an arbitrary object: a first argument that is no class
  raises \<open>TypeError\<close>.\<close>

fun py_issubclass :: "pyval \<Rightarrow> pyclass \<Rightarrow> error + bool" where
  "py_issubclass (VClass c) k = Inr (issubclass c k)"
| "py_issubclass x k = Inl TypeError"

subsection \<open>The filter protocol and \<open>is_param\<close>\<close>

text \<open>
  A filter is a predicate \<^verbatim>\<open>(path: tuple[Key, ...], value: Any) -> bool\<close>. A call of a
  Python function may also raise, which is the \<open>Inl\<close> result.
\<close>

type_synonym predicate = "path \<Rightarrow> entry \<Rightarrow> error + bool"

text \<open>
  \<^verbatim>\<open>
  def is_param(path, value) -> bool:
    return isinstance(value, nnx.Param) or (
      hasattr(value, 'type') and issubclass(value.type, nnx.Param)
    )
  \<close>
  The class \<open>nnx.Param\<close> is declared by the framework, not by the notebook: it is the
  first argument. \<open>nnx.OfType(k)\<close> "defines a callable of this form for a given type".
  Both \<open>or\<close> and \<open>and\<close> evaluate their right operand only when the left one does not
  decide.
\<close>

definition is_param :: "pyclass \<Rightarrow> predicate" where
  "is_param Param path value =
     (if isinstance value Param then Inr True
      else if hasattr value ''type'' then
        (case getattr value ''type'' of
           Inl e \<Rightarrow> Inl e
         | Inr t \<Rightarrow> py_issubclass t Param)
      else Inr False)"

text \<open>
  The logical OR of predicates on a pair, evaluated as Python evaluates
  \<^verbatim>\<open>p1(path, value) or p2(path, value) or ...\<close>: from the left, up to the first
  predicate that returns true or raises.
\<close>

fun logical_or :: "predicate list \<Rightarrow> predicate" where
  "logical_or [] path value = Inr False"
| "logical_or (p # ps) path value =
     (case p path value of
        Inl e \<Rightarrow> Inl e
      | Inr b \<Rightarrow> if b then Inr True else logical_or ps path value)"

subsection \<open>Grouping states: \<open>split\<close>\<close>

text \<open>
  \<^verbatim>\<open>
  def split(node, *filters):
    graphdef, state = nnx.graph.flatten(node)
    predicates = [nnx.filterlib.to_predicate(f) for f in filters]
    flat_states: list[dict[KeyPath, Any]] = [{} for p in predicates]

    for path, value in state.flat_state():
      for i, predicate in enumerate(predicates):
        if predicate(path, value):
          flat_states[i][path] = value
          break
      else:
        raise ValueError(f'No filter matched {path = } {value = }')

    states = tuple(nnx.State.from_flat_path(flat_state) for flat_state in flat_states)
    return graphdef, *states
  \<close>
  \<open>nnx.graph.flatten\<close> and \<open>nnx.State.from_flat_path\<close> belong to the framework: the
  model starts from the sequence of pairs \<open>state.flat_state()\<close> yields and returns the
  list \<open>flat_states\<close> of dictionaries, one for each filter.
  \<open>nnx.filterlib.to_predicate\<close> belongs to the framework too: it is a parameter of
  the model, a function from filters to predicates that may raise.
\<close>

text \<open>The comprehension \<^verbatim>\<open>[nnx.filterlib.to_predicate(f) for f in filters]\<close>: the
  filters are compiled in order, and the first one that raises ends the comprehension.\<close>

fun compile_filters :: "('f \<Rightarrow> error + predicate) \<Rightarrow> 'f list \<Rightarrow> error + predicate list" where
  "compile_filters to_predicate [] = Inr []"
| "compile_filters to_predicate (f # filters) =
     (case to_predicate f of
        Inl e \<Rightarrow> Inl e
      | Inr p \<Rightarrow>
          (case compile_filters to_predicate filters of
             Inl e \<Rightarrow> Inl e
           | Inr ps \<Rightarrow> Inr (p # ps)))"

type_synonym flat_state = "path \<rightharpoonup> entry"

text \<open>
  The inner \<open>for ... else\<close> over \<open>enumerate(predicates)\<close>: the first predicate that
  returns true stores the pair in its dictionary and breaks; running off the end of
  the predicates raises \<open>ValueError\<close>. An index outside \<open>flat_states\<close> would raise
  \<open>IndexError\<close>.
\<close>

fun split_inner ::
  "(nat \<times> predicate) list \<Rightarrow> path \<Rightarrow> entry \<Rightarrow> flat_state list \<Rightarrow> error + flat_state list" where
  "split_inner [] path value flat_states = Inl (ValueError path value)"
| "split_inner ((i, predicate) # rest) path value flat_states =
     (case predicate path value of
        Inl e \<Rightarrow> Inl e
      | Inr b \<Rightarrow>
          if b then
            (if i < length flat_states
             then Inr (flat_states[i := (flat_states ! i)(path \<mapsto> value)])
             else Inl IndexError)
          else split_inner rest path value flat_states)"

text \<open>The outer loop over the pairs of the flat state, in their order.\<close>

fun split_outer ::
  "predicate list \<Rightarrow> (path \<times> entry) list \<Rightarrow> flat_state list \<Rightarrow> error + flat_state list" where
  "split_outer predicates [] flat_states = Inr flat_states"
| "split_outer predicates ((path, value) # rest) flat_states =
     (case split_inner (enumerate 0 predicates) path value flat_states of
        Inl e \<Rightarrow> Inl e
      | Inr flat_states' \<Rightarrow> split_outer predicates rest flat_states')"

definition split ::
  "('f \<Rightarrow> error + predicate) \<Rightarrow> (path \<times> entry) list \<Rightarrow> 'f list \<Rightarrow> error + flat_state list" where
  "split to_predicate state filters =
     (case compile_filters to_predicate filters of
        Inl e \<Rightarrow> Inl e
      | Inr predicates \<Rightarrow>
          split_outer predicates state (replicate (length predicates) Map.empty))"

subsection \<open>The filter DSL and \<open>to_predicate\<close>\<close>

text \<open>
  Modelled from the spec: \<open>nnx.filterlib\<close> (the callables \<open>Everything\<close>, \<open>Nothing\<close>,
  \<open>OfType\<close>, \<open>WithTag\<close>, \<open>PathContains\<close>, \<open>Any\<close>, \<open>All\<close>, \<open>Not\<close> and the function
  \<open>to_predicate\<close>) is not part of the notebook; the definitions of this subsection
  follow the table of literal forms of the spec (section 4.1) and the table of the
  notebook. \<open>OfType k\<close> alone comes from the notebook's code: it is \<open>is_param\<close> for
  the class \<open>k\<close>. The combinators are named \<open>Any_of\<close>, \<open>All_of\<close>, \<open>Not_of\<close> here.
  An inner predicate that raises ends the evaluation of a combinator, as it ends the
  evaluation of a Python \<open>or\<close> and \<open>and\<close>.
\<close>

definition Everything :: predicate where
  "Everything path value = Inr True"

definition Nothing :: predicate where
  "Nothing path value = Inr False"

definition OfType :: "pyclass \<Rightarrow> predicate" where
  "OfType k = is_param k"

definition WithTag :: "string \<Rightarrow> predicate" where
  "WithTag s path value = Inr (hasattr value ''tag'' \<and> attrs value ''tag'' = Some (VStr s))"

definition PathContains :: "key \<Rightarrow> predicate" where
  "PathContains k path value = Inr (k \<in> set path)"

definition Any_of :: "predicate list \<Rightarrow> predicate" where
  "Any_of ps = logical_or ps"

fun All_of :: "predicate list \<Rightarrow> predicate" where
  "All_of [] path value = Inr True"
| "All_of (p # ps) path value =
     (case p path value of
        Inl e \<Rightarrow> Inl e
      | Inr b \<Rightarrow> if b then All_of ps path value else Inr False)"

definition Not_of :: "predicate \<Rightarrow> predicate" where
  "Not_of p path value = (case p path value of Inl e \<Rightarrow> Inl e | Inr b \<Rightarrow> Inr (\<not> b))"

text \<open>
  Modelled from the spec: the literal forms a caller can pass as a filter (the type
  \<open>nnx.filterlib.Filter\<close>, not part of the notebook). \<open>MatchAll\<close> is \<open>...\<close> or
  \<open>True\<close>, \<open>MatchNone\<close> is \<open>None\<close> or \<open>False\<close>; \<open>ListLit\<close> is a list or tuple of
  literals; \<open>PredicateLit\<close> is an already compiled predicate; \<open>UnrecognizedLit\<close> is a
  value of none of the recognized forms (a number, say).
\<close>

datatype literal =
    MatchAll
  | MatchNone
  | KindLit pyclass
  | StrLit string
  | ListLit "literal list"
  | AnyLit "literal list"
  | AllLit "literal list"
  | NotLit literal
  | PathContainsLit key
  | WithTagLit string
  | PredicateLit predicate
  | UnrecognizedLit

text \<open>
  Modelled from the spec: \<open>to_predicate\<close> (\<open>compile\<close> in the spec), recursive over
  composite literals; \<open>to_predicate_list\<close> compiles the literals of a composite
  literal in order and fails at the first literal that fails.
\<close>

fun to_predicate :: "literal \<Rightarrow> error + predicate"
  and to_predicate_list :: "literal list \<Rightarrow> error + predicate list" where
  "to_predicate MatchAll = Inr Everything"
| "to_predicate MatchNone = Inr Nothing"
| "to_predicate (KindLit k) = Inr (OfType k)"
| "to_predicate (StrLit s) = Inr (WithTag s)"
| "to_predicate (ListLit ls) =
     (case to_predicate_list ls of Inl e \<Rightarrow> Inl e | Inr ps \<Rightarrow> Inr (Any_of ps))"
| "to_predicate (AnyLit ls) =
     (case to_predicate_list ls of Inl e \<Rightarrow> Inl e | Inr ps \<Rightarrow> Inr (Any_of ps))"
| "to_predicate (AllLit ls) =
     (case to_predicate_list ls of Inl e \<Rightarrow> Inl e | Inr ps \<Rightarrow> Inr (All_of ps))"
| "to_predicate (NotLit l) =
     (case to_predicate l of Inl e \<Rightarrow> Inl e | Inr p \<Rightarrow> Inr (Not_of p))"
| "to_predicate (PathContainsLit k) = Inr (PathContains k)"
| "to_predicate (WithTagLit s) = Inr (WithTag s)"
| "to_predicate (PredicateLit p) = Inr p"
| "to_predicate UnrecognizedLit = Inl InvalidFilterLiteral"
| "to_predicate_list [] = Inr []"
| "to_predicate_list (l # ls) =
     (case to_predicate l of
        Inl e \<Rightarrow> Inl e
      | Inr p \<Rightarrow> (case to_predicate_list ls of Inl e \<Rightarrow> Inl e | Inr ps \<Rightarrow> Inr (p # ps)))"

subsection \<open>The classes and objects of the notebook\<close>

text \<open>
  Modelled from the spec: the classes \<open>nnx.Variable\<close>, \<open>nnx.Param\<close>, \<open>nnx.BatchStat\<close> and
  \<open>nnx.VariableState\<close> are declared by the framework; \<open>SpecialParam\<close> is the
  notebook's \<^verbatim>\<open>class SpecialParam(nnx.Param): pass\<close>. They serve as concrete inputs.
\<close>

definition Variable :: pyclass where
  "Variable = Class ''Variable'' []"

definition Param :: pyclass where
  "Param = Class ''Param'' [Variable]"

definition BatchStat :: pyclass where
  "BatchStat = Class ''BatchStat'' [Variable]"

definition SpecialParam :: pyclass where
  "SpecialParam = Class ''SpecialParam'' [Param]"

definition VariableState :: "pyclass \<Rightarrow> pyval \<Rightarrow> entry" where
  "VariableState t x =
     \<lparr>cls = Class ''VariableState'' [], attrs = [''type'' \<mapsto> VClass t, ''value'' \<mapsto> x]\<rparr>"

text \<open>
  The flat states of the notebook's objects:
  \<^verbatim>\<open>Foo: self.a = nnx.Param(0); self.b = nnx.BatchStat(True)\<close> and
  \<^verbatim>\<open>Bar: self.a = nnx.Param(0); self.b = SpecialParam(0)\<close>.
\<close>

definition foo_state :: "(path \<times> entry) list" where
  "foo_state =
     [([KStr ''a''], VariableState Param (VInt 0)),
      ([KStr ''b''], VariableState BatchStat (VBool True))]"

definition bar_state :: "(path \<times> entry) list" where
  "bar_state =
     [([KStr ''a''], VariableState Param (VInt 0)),
      ([KStr ''b''], VariableState SpecialParam (VInt 0))]"

subsection \<open>Notions of the specification\<close>

text \<open>\<open>derives c b\<close>: the class \<open>c\<close> names \<open>b\<close> among its bases. A kind is a sub-kind
  of another when a chain of such steps (none, for the kind itself) leads to it.\<close>

definition derives :: "pyclass \<Rightarrow> pyclass \<Rightarrow> bool" where
  "derives c b = (b \<in> set (bases c))"

text \<open>A literal that is, or somewhere contains, a value of no recognized form.\<close>

fun unrecognized :: "literal \<Rightarrow> bool" where
  "unrecognized UnrecognizedLit = True"
| "unrecognized (ListLit ls) = list_ex unrecognized ls"
| "unrecognized (AnyLit ls) = list_ex unrecognized ls"
| "unrecognized (AllLit ls) = list_ex unrecognized ls"
| "unrecognized (NotLit l) = unrecognized l"
| "unrecognized l = False"

text \<open>The pairs some group holds; groups that share no path; a path no group holds.\<close>

definition assigned :: "flat_state list \<Rightarrow> (path \<times> entry) set" where
  "assigned gs = {(p, v). \<exists>i<length gs. (gs ! i) p = Some v}"

definition disjoint_groups :: "flat_state list \<Rightarrow> bool" where
  "disjoint_groups gs =
     (\<forall>i<length gs. \<forall>j<length gs. i \<noteq> j \<longrightarrow> dom (gs ! i) \<inter> dom (gs ! j) = {})"

definition fresh :: "path \<Rightarrow> flat_state list \<Rightarrow> bool" where
  "fresh p gs = (\<forall>i<length gs. p \<notin> dom (gs ! i))"

section \<open>Auxiliary facts\<close>

subsection \<open>Evaluating the notebook's cells\<close>

lemmas notebook_defs =
  split_def OfType_def is_param_def isinstance_def hasattr_def getattr_def
  VariableState_def SpecialParam_def Param_def BatchStat_def Variable_def
  foo_state_def bar_state_def

text \<open>The three calls of \<open>split\<close> the notebook prints.\<close>

lemma notebook_split_foo:
  "split to_predicate foo_state [KindLit Param, KindLit BatchStat] =
     Inr [[[KStr ''a''] \<mapsto> VariableState Param (VInt 0)],
          [[KStr ''b''] \<mapsto> VariableState BatchStat (VBool True)]]"
  by (simp add: notebook_defs)

lemma notebook_split_bar_general_first:
  "split to_predicate bar_state [KindLit Param, KindLit SpecialParam] =
     Inr [[[KStr ''a''] \<mapsto> VariableState Param (VInt 0),
           [KStr ''b''] \<mapsto> VariableState SpecialParam (VInt 0)],
          Map.empty]"
  by (simp add: notebook_defs)

lemma notebook_split_bar_special_first:
  "split to_predicate bar_state [KindLit SpecialParam, KindLit Param] =
     Inr [[[KStr ''b''] \<mapsto> VariableState SpecialParam (VInt 0)],
          [[KStr ''a''] \<mapsto> VariableState Param (VInt 0)]]"
  by (simp add: notebook_defs)

subsection \<open>The class hierarchy\<close>

lemma issubclass_refl: "issubclass k k"
  by (cases k) simp

lemma issubclass_step: "derives c b \<Longrightarrow> issubclass b k \<Longrightarrow> issubclass c k"
  by (cases c) (auto simp: derives_def list_ex_iff)

lemma issubclass_imp_rtranclp: "issubclass c k \<Longrightarrow> derives\<^sup>*\<^sup>* c k"
proof (induction c k rule: issubclass.induct)
  case (1 n bs k)
  show ?case
  proof (cases "Class n bs = k")
    case True
    then show ?thesis by simp
  next
    case False
    with "1.prems" obtain b where b: "b \<in> set bs" "issubclass b k"
      by (auto simp: list_ex_iff)
    then have "derives\<^sup>*\<^sup>* b k" using "1.IH" by blast
    moreover have "derives (Class n bs) b" using b by (simp add: derives_def)
    ultimately show ?thesis by (rule converse_rtranclp_into_rtranclp[rotated])
  qed
qed

lemma rtranclp_imp_issubclass: "derives\<^sup>*\<^sup>* c k \<Longrightarrow> issubclass c k"
  by (induction rule: converse_rtranclp_induct) (auto intro: issubclass_refl issubclass_step)

lemma issubclass_iff_rtranclp: "issubclass c k \<longleftrightarrow> derives\<^sup>*\<^sup>* c k"
  using issubclass_imp_rtranclp rtranclp_imp_issubclass by blast

lemma tranclp_imp_issubclass: "derives\<^sup>+\<^sup>+ c k \<Longrightarrow> issubclass c k"
  by (simp add: rtranclp_imp_issubclass tranclp_into_rtranclp)

lemma derives_SpecialParam: "derives SpecialParam Param"
  by (simp add: derives_def SpecialParam_def)

lemma is_param_True_iff:
  "is_param K path value = Inr True \<longleftrightarrow>
     issubclass (cls value) K \<or> (\<exists>c. attrs value ''type'' = Some (VClass c) \<and> issubclass c K)"
  by (cases "attrs value ''type''"; cases "the (attrs value ''type'')")
     (auto simp: is_param_def isinstance_def hasattr_def getattr_def)

subsection \<open>Compilation\<close>

lemma compile_filters_length: "compile_filters c fs = Inr ps \<Longrightarrow> length ps = length fs"
  by (induction fs arbitrary: ps) (auto split: sum.splits)

lemma to_predicate_list_eq: "to_predicate_list ls = compile_filters to_predicate ls"
  by (induction ls) (auto split: sum.splits)

lemma to_predicate_error:
  "to_predicate l = Inl e \<Longrightarrow> e = InvalidFilterLiteral"
  "to_predicate_list ls = Inl e \<Longrightarrow> e = InvalidFilterLiteral"
  by (induction l and ls rule: to_predicate_to_predicate_list.induct) (auto split: sum.splits)

lemma unrecognized_fails:
  "unrecognized l \<Longrightarrow> to_predicate l = Inl InvalidFilterLiteral"
  "list_ex unrecognized ls \<Longrightarrow> to_predicate_list ls = Inl InvalidFilterLiteral"
  by (induction l and ls rule: to_predicate_to_predicate_list.induct)
     (auto split: sum.splits dest: to_predicate_error)

lemma all2_imp_to_predicate_list:
  "list_all2 (\<lambda>l p. to_predicate l = Inr p) ls ps \<Longrightarrow> to_predicate_list ls = Inr ps"
  by (induction rule: list_all2_induct) auto

lemma logical_or_bool:
  "\<forall>q\<in>set ps. \<exists>b. q path value = Inr b \<Longrightarrow>
   logical_or ps path value = Inr (\<exists>q\<in>set ps. q path value = Inr True)"
  by (induction ps) (auto split: sum.splits)

text \<open>The OR is true exactly when some predicate returns true and every
  predicate before it has returned false.\<close>

lemma logical_or_True_iff:
  "logical_or ps path value = Inr True \<longleftrightarrow>
   (\<exists>i<length ps. (ps ! i) path value = Inr True \<and> (\<forall>j<i. (ps ! j) path value = Inr False))"
proof (induction ps)
  case Nil
  then show ?case by simp
next
  case (Cons q qs)
  show ?case
  proof (cases "q path value")
    case (Inl e)
    then show ?thesis
      apply simp
      by (metis nth_Cons_0 not_gr_zero sum.distinct(1) zero_less_Suc)
  next
    case (Inr b)
    show ?thesis
    proof (cases b)
      case True
      then show ?thesis using Inr by auto
    next
      case False
      have "(\<exists>i<length (q # qs). ((q # qs) ! i) path value = Inr True \<and>
               (\<forall>j<i. ((q # qs) ! j) path value = Inr False))
        \<longleftrightarrow> (\<exists>i<length qs. (qs ! i) path value = Inr True \<and>
               (\<forall>j<i. (qs ! j) path value = Inr False))"
        (is "?L \<longleftrightarrow> ?R")
      proof
        assume ?L
        then obtain i where i: "i < length (q # qs)" "((q # qs) ! i) path value = Inr True"
          "\<forall>j<i. ((q # qs) ! j) path value = Inr False" by blast
        with Inr False obtain i' where [simp]: "i = Suc i'" by (cases i) auto
        have "\<forall>j<i'. (qs ! j) path value = Inr False"
          using i(3) by (metis Suc_less_eq \<open>i = Suc i'\<close> nth_Cons_Suc)
        with i show ?R by auto
      next
        assume ?R
        then obtain i where i: "i < length qs" "(qs ! i) path value = Inr True"
          "\<forall>j<i. (qs ! j) path value = Inr False" by blast
        have "\<forall>j<Suc i. ((q # qs) ! j) path value = Inr False"
          using i(3) Inr False by (auto simp: nth_Cons split: nat.splits)
        with i show ?L by (intro exI[of _ "Suc i"]) auto
      qed
      with Cons.IH Inr False show ?thesis by simp
    qed
  qed
qed

subsection \<open>The inner loop\<close>

lemma split_inner_length:
  "split_inner ips p v gs = Inr gs' \<Longrightarrow> length gs' = length gs"
  by (induction ips p v gs rule: split_inner.induct) (auto split: sum.splits if_splits)

lemma split_inner_first:
  assumes "\<forall>x\<in>set qs. x p v = Inr False" and "q p v = Inr True" and "k + length qs < length gs"
  shows "split_inner (enumerate k (qs @ q # rs)) p v gs
           = Inr (gs[k + length qs := (gs ! (k + length qs))(p \<mapsto> v)])"
  using assms by (induction qs arbitrary: k) auto

lemma split_inner_raise:
  assumes "\<forall>x\<in>set qs. x p v = Inr False" and "q p v = Inl e"
  shows "split_inner (enumerate k (qs @ q # rs)) p v gs = Inl e"
  using assms by (induction qs arbitrary: k) auto

lemma split_inner_none:
  "\<forall>x\<in>set ps. x p v = Inr False \<Longrightarrow> split_inner (enumerate k ps) p v gs = Inl (ValueError p v)"
  by (induction ps arbitrary: k) auto

lemma split_inner_not_true:
  "\<forall>x\<in>set ps. x p v \<noteq> Inr True \<Longrightarrow> \<exists>e. split_inner (enumerate k ps) p v gs = Inl e"
  by (induction ps arbitrary: k) (auto split: sum.splits)

lemma split_inner_result:
  "split_inner (enumerate k ps) p v gs = Inr gs' \<Longrightarrow>
     \<exists>i<length gs. gs' = gs[i := (gs ! i)(p \<mapsto> v)]"
  by (induction ps arbitrary: k) (auto split: sum.splits if_splits)

lemma split_inner_at:
  assumes "i < length ps" and "(ps ! i) p v = Inr True" and "\<forall>j<i. (ps ! j) p v = Inr False"
    and "length gs = length ps"
  shows "split_inner (enumerate 0 ps) p v gs = Inr (gs[i := (gs ! i)(p \<mapsto> v)])"
proof -
  have ps: "ps = take i ps @ ps ! i # drop (Suc i) ps"
    using assms(1) by (rule id_take_nth_drop)
  have "\<forall>x\<in>set (take i ps). x p v = Inr False"
    using assms(1,3) by (auto simp: in_set_conv_nth)
  from split_inner_first[where qs="take i ps" and q="ps ! i" and rs="drop (Suc i) ps"
      and k=0 and gs=gs and p=p and v=v, OF this assms(2)] assms(1,4) ps
  show ?thesis by simp
qed

lemma split_inner_raise_at:
  assumes "i < length ps" and "(ps ! i) p v = Inl e" and "\<forall>j<i. (ps ! j) p v = Inr False"
  shows "split_inner (enumerate 0 ps) p v gs = Inl e"
proof -
  have ps: "ps = take i ps @ ps ! i # drop (Suc i) ps"
    using assms(1) by (rule id_take_nth_drop)
  have "\<forall>x\<in>set (take i ps). x p v = Inr False"
    using assms(1,3) by (auto simp: in_set_conv_nth)
  from split_inner_raise[where qs="take i ps" and q="ps ! i" and rs="drop (Suc i) ps"
      and k=0 and gs=gs and p=p and v=v, OF this assms(2)] ps
  show ?thesis by simp
qed

lemma split_inner_exhaustive:
  assumes "logical_or ps p v = Inr True" and "length gs = length ps"
  shows "\<exists>gs'. split_inner (enumerate 0 ps) p v gs = Inr gs'"
  using assms split_inner_at unfolding logical_or_True_iff by blast

subsection \<open>The outer loop\<close>

lemma split_outer_length:
  "split_outer ps E gs = Inr gs' \<Longrightarrow> length gs' = length gs"
  by (induction ps E gs rule: split_outer.induct) (auto split: sum.splits dest: split_inner_length)

lemma split_outer_append:
  "split_outer ps (E1 @ E2) gs =
     (case split_outer ps E1 gs of Inl e \<Rightarrow> Inl e | Inr gs' \<Rightarrow> split_outer ps E2 gs')"
  by (induction ps E1 gs rule: split_outer.induct) (auto split: sum.splits)

lemma split_outer_exhaustive:
  assumes "\<forall>(p, v)\<in>set E. logical_or ps p v = Inr True" and "length gs = length ps"
  shows "\<exists>gs'. split_outer ps E gs = Inr gs'"
  using assms
proof (induction E arbitrary: gs)
  case Nil
  then show ?case by simp
next
  case (Cons pv E)
  obtain p v where pv: "pv = (p, v)" by (cases pv)
  with Cons.prems obtain gs1 where 1: "split_inner (enumerate 0 ps) p v gs = Inr gs1"
    using split_inner_exhaustive by fastforce
  then have "length gs1 = length ps" using Cons.prems(2) by (simp add: split_inner_length)
  with Cons.IH[of gs1] Cons.prems(1) obtain gs' where "split_outer ps E gs1 = Inr gs'"
    by auto
  with 1 pv show ?case by simp
qed

text \<open>The indices \<open>enumerate\<close> yields lie inside \<open>flat_states\<close>: the loops raise
  \<open>IndexError\<close> only when a predicate does.\<close>

lemma split_inner_IndexError:
  assumes "split_inner (enumerate k ps) p v gs = Inl IndexError" and "k + length ps \<le> length gs"
  shows "\<exists>q\<in>set ps. q p v = Inl IndexError"
  using assms by (induction ps arbitrary: k) (auto split: sum.splits if_splits)

lemma split_outer_IndexError:
  assumes "split_outer ps E gs = Inl IndexError" and "length gs = length ps"
  shows "\<exists>(p, v)\<in>set E. \<exists>q\<in>set ps. q p v = Inl IndexError"
  using assms
proof (induction E arbitrary: gs)
  case Nil
  then show ?case by simp
next
  case (Cons pv E)
  obtain p v where pv: "pv = (p, v)" by (cases pv)
  show ?case
  proof (cases "split_inner (enumerate 0 ps) p v gs")
    case (Inl e)
    then have "split_inner (enumerate 0 ps) p v gs = Inl IndexError"
      using Cons.prems(1) pv by simp
    then have "\<exists>q\<in>set ps. q p v = Inl IndexError"
      using Cons.prems(2) by (intro split_inner_IndexError[of 0]) auto
    then show ?thesis using pv by auto
  next
    case (Inr gs1)
    then have "length gs1 = length ps" using Cons.prems(2) by (simp add: split_inner_length)
    moreover have "split_outer ps E gs1 = Inl IndexError" using Cons.prems(1) pv Inr by simp
    ultimately have "\<exists>(p, v)\<in>set E. \<exists>q\<in>set ps. q p v = Inl IndexError"
      using Cons.IH by blast
    then show ?thesis by auto
  qed
qed

text \<open>With predicates that return booleans, the only failure is an unmatched pair.\<close>

lemma split_inner_bool:
  assumes "\<forall>q\<in>set ps. \<exists>b. q p v = Inr b" and "length gs = length ps"
  shows "(\<exists>gs'. split_inner (enumerate 0 ps) p v gs = Inr gs') \<or>
         (split_inner (enumerate 0 ps) p v gs = Inl (ValueError p v) \<and>
          (\<forall>q\<in>set ps. q p v = Inr False))"
proof (cases "\<exists>q\<in>set ps. q p v = Inr True")
  case True
  then have "logical_or ps p v = Inr True"
    using logical_or_bool[OF assms(1)] by simp
  then show ?thesis using split_inner_exhaustive[OF _ assms(2)] by blast
next
  case False
  then have "\<forall>q\<in>set ps. q p v = Inr False"
    using assms(1) by (metis (full_types))
  then show ?thesis by (simp add: split_inner_none)
qed

lemma split_outer_bool_fail:
  assumes "\<forall>(p, v)\<in>set E. \<forall>q\<in>set ps. \<exists>b. q p v = Inr b"
    and "length gs = length ps" and "split_outer ps E gs = Inl e"
  shows "\<exists>p v. (p, v) \<in> set E \<and> (\<forall>q\<in>set ps. q p v = Inr False) \<and> e = ValueError p v"
  using assms
proof (induction E arbitrary: gs)
  case Nil
  then show ?case by simp
next
  case (Cons pv E)
  obtain p v where pv: "pv = (p, v)" by (cases pv)
  have b: "\<forall>q\<in>set ps. \<exists>b. q p v = Inr b" using Cons.prems(1) pv by simp
  from split_inner_bool[OF b Cons.prems(2)] show ?case
  proof
    assume "\<exists>gs'. split_inner (enumerate 0 ps) p v gs = Inr gs'"
    then obtain gs1 where 1: "split_inner (enumerate 0 ps) p v gs = Inr gs1" by blast
    then have "length gs1 = length ps" using Cons.prems(2) by (simp add: split_inner_length)
    moreover have "split_outer ps E gs1 = Inl e" using Cons.prems(3) pv 1 by simp
    moreover have "\<forall>(p, v)\<in>set E. \<forall>q\<in>set ps. \<exists>b. q p v = Inr b" using Cons.prems(1) by simp
    ultimately have "\<exists>p v. (p, v) \<in> set E \<and> (\<forall>q\<in>set ps. q p v = Inr False) \<and> e = ValueError p v"
      using Cons.IH by blast
    then show ?thesis by auto
  next
    assume a: "split_inner (enumerate 0 ps) p v gs = Inl (ValueError p v) \<and>
      (\<forall>q\<in>set ps. q p v = Inr False)"
    then have "e = ValueError p v" using Cons.prems(3) pv by simp
    with a pv show ?thesis by auto
  qed
qed

text \<open>Storing a pair whose path no group holds yet: what the groups hold grows by that
  pair, and groups that shared no path still share none.\<close>

lemma step_assigned:
  assumes "i < length gs" and "fresh p gs"
  shows "assigned (gs[i := (gs ! i)(p \<mapsto> v)]) = insert (p, v) (assigned gs)"
proof -
  have "(\<exists>j<length gs. (gs[i := (gs ! i)(p \<mapsto> v)] ! j) a = Some b) \<longleftrightarrow>
        ((a, b) = (p, v) \<or> (\<exists>j<length gs. (gs ! j) a = Some b))" for a b
  proof (cases "a = p")
    case True
    have "\<not> (\<exists>j<length gs. (gs ! j) p = Some b)"
      using assms(2) by (auto simp: fresh_def)
    moreover have "(\<exists>j<length gs. (gs[i := (gs ! i)(p \<mapsto> v)] ! j) p = Some b) \<longleftrightarrow> b = v"
      using assms by (auto simp: nth_list_update fresh_def)
    ultimately show ?thesis using True by auto
  next
    case False
    then have "(gs[i := (gs ! i)(p \<mapsto> v)] ! j) a = (gs ! j) a" if "j < length gs" for j
      using that assms(1) by (simp add: nth_list_update)
    then show ?thesis using False by auto
  qed
  then show ?thesis by (auto simp: assigned_def)
qed

lemma step_disjoint:
  assumes "i < length gs" and "fresh p gs" and "disjoint_groups gs"
  shows "disjoint_groups (gs[i := (gs ! i)(p \<mapsto> v)])"
  using assms unfolding disjoint_groups_def fresh_def
  by (auto simp: nth_list_update)

lemma step_fresh:
  assumes "fresh p' gs" and "p' \<noteq> p" and "i < length gs"
  shows "fresh p' (gs[i := (gs ! i)(p \<mapsto> v)])"
  using assms unfolding fresh_def
  by (auto simp: nth_list_update)

lemma split_outer_invariant:
  assumes "split_outer ps E gs = Inr gs'" and "distinct (map fst E)"
    and "\<forall>p\<in>fst ` set E. fresh p gs" and "disjoint_groups gs"
  shows "disjoint_groups gs' \<and> assigned gs' = assigned gs \<union> set E"
  using assms
proof (induction E arbitrary: gs)
  case Nil
  then show ?case by simp
next
  case (Cons pv E)
  obtain p v where pv: "pv = (p, v)" by (cases pv)
  from Cons.prems(1) pv obtain gs1 where
    1: "split_inner (enumerate 0 ps) p v gs = Inr gs1" and 2: "split_outer ps E gs1 = Inr gs'"
    by (auto split: sum.splits)
  from split_inner_result[OF 1] obtain i where
    i: "i < length gs" "gs1 = gs[i := (gs ! i)(p \<mapsto> v)]" by blast
  have fp: "fresh p gs" using Cons.prems(3) pv by simp
  have d1: "disjoint_groups gs1" using i fp Cons.prems(4) by (simp add: step_disjoint)
  have a1: "assigned gs1 = insert (p, v) (assigned gs)" using i fp by (simp add: step_assigned)
  have f1: "\<forall>p'\<in>fst ` set E. fresh p' gs1"
  proof
    fix p' assume p': "p' \<in> fst ` set E"
    then have "p' \<noteq> p" using Cons.prems(2) pv by auto
    moreover have "fresh p' gs" using Cons.prems(3) p' by auto
    ultimately show "fresh p' gs1" using i by (simp add: step_fresh)
  qed
  have "distinct (map fst E)" using Cons.prems(2) by simp
  from Cons.IH[OF 2 this f1 d1] a1 pv show ?case by auto
qed

lemma split_invariant:
  assumes "split c E F = Inr gs" and "distinct (map fst E)"
  shows "length gs = length F \<and> disjoint_groups gs \<and> assigned gs = set E"
proof -
  from assms(1) obtain ps where ps: "compile_filters c F = Inr ps"
    and so: "split_outer ps E (replicate (length ps) Map.empty) = Inr gs"
    by (auto simp: split_def split: sum.splits)
  have "disjoint_groups (replicate (length ps) Map.empty)"
    by (simp add: disjoint_groups_def)
  moreover have "\<forall>p\<in>fst ` set E. fresh p (replicate (length ps) Map.empty)"
    by (simp add: fresh_def)
  moreover have "assigned (replicate (length ps) Map.empty) = {}"
    by (simp add: assigned_def)
  ultimately have "disjoint_groups gs \<and> assigned gs = set E"
    using split_outer_invariant[OF so assms(2)] by simp
  moreover have "length gs = length F"
    using split_outer_length[OF so] compile_filters_length[OF ps] by simp
  ultimately show ?thesis by simp
qed

lemma assigned_graph: "assigned gs = (\<Union>i<length gs. Map.graph (gs ! i))"
  by (auto simp: assigned_def Map.graph_def)

section \<open>Properties\<close>

subsection \<open>First match wins, in order\<close>

text \<open>
  C1. \<open>split\<close> processes the pairs in the order of the flat state and, for each pair,
  evaluates the compiled predicates in the order of the literals; the pair goes to the
  group of the first predicate that returns true, and no later predicate is evaluated
  for it.

  Whatever \<open>to_predicate\<close> is, with the predicates the filters compile to: the
  empty state leaves every group empty; appending a pair \<open>(path, value)\<close> to a state that \<open>split\<close> groups into \<open>flat_states\<close>
  stores the pair in group \<open>i\<close> when predicate \<open>i\<close> returns true and the predicates
  before it return false, whatever the predicates after \<open>i\<close> would do (return true,
  or raise); a predicate that raises before any has returned true ends the call with
  its exception; and a call that fails on a state fails the same way on every longer
  state.
\<close>

theorem split_first_match_wins:
  assumes "compile_filters to_pred filters = Inr predicates"
  shows "split to_pred [] filters = Inr (replicate (length filters) Map.empty) \<and>
    (\<forall>state path value flat_states i.
       split to_pred state filters = Inr flat_states \<and> i < length predicates \<and>
       (\<forall>j<i. (predicates ! j) path value = Inr False) \<and>
       (predicates ! i) path value = Inr True
       \<longrightarrow> split to_pred (state @ [(path, value)]) filters
             = Inr (flat_states[i := (flat_states ! i)(path \<mapsto> value)])) \<and>
    (\<forall>state path value flat_states i e.
       split to_pred state filters = Inr flat_states \<and> i < length predicates \<and>
       (\<forall>j<i. (predicates ! j) path value = Inr False) \<and>
       (predicates ! i) path value = Inl e
       \<longrightarrow> split to_pred (state @ [(path, value)]) filters = Inl e) \<and>
    (\<forall>state rest e.
       split to_pred state filters = Inl e \<longrightarrow> split to_pred (state @ rest) filters = Inl e)"
proof (intro conjI allI impI)
  show "split to_pred [] filters = Inr (replicate (length filters) Map.empty)"
    using assms compile_filters_length[OF assms] by (simp add: split_def)
next
  fix state path "value" flat_states i
  assume a: "split to_pred state filters = Inr flat_states \<and> i < length predicates \<and>
       (\<forall>j<i. (predicates ! j) path value = Inr False) \<and>
       (predicates ! i) path value = Inr True"
  then have so:
    "split_outer predicates state (replicate (length predicates) Map.empty) = Inr flat_states"
    using assms by (simp add: split_def)
  then have "length flat_states = length predicates"
    by (auto dest: split_outer_length)
  with a have "split_inner (enumerate 0 predicates) path value flat_states
     = Inr (flat_states[i := (flat_states ! i)(path \<mapsto> value)])"
    by (intro split_inner_at) auto
  then show "split to_pred (state @ [(path, value)]) filters
             = Inr (flat_states[i := (flat_states ! i)(path \<mapsto> value)])"
    using assms so by (simp add: split_def split_outer_append)
next
  fix state path "value" flat_states i e
  assume a: "split to_pred state filters = Inr flat_states \<and> i < length predicates \<and>
       (\<forall>j<i. (predicates ! j) path value = Inr False) \<and>
       (predicates ! i) path value = Inl e"
  then have so:
    "split_outer predicates state (replicate (length predicates) Map.empty) = Inr flat_states"
    using assms by (simp add: split_def)
  from a have "split_inner (enumerate 0 predicates) path value flat_states = Inl e"
    by (intro split_inner_raise_at[of i]) auto
  then show "split to_pred (state @ [(path, value)]) filters = Inl e"
    using assms so by (simp add: split_def split_outer_append)
next
  fix state rest e
  assume "split to_pred state filters = Inl e"
  then show "split to_pred (state @ rest) filters = Inl e"
    using assms by (simp add: split_def split_outer_append)
qed

text \<open>
  At the notebook's \<open>Foo\<close>, with the predicates of \<open>Param\<close> and \<open>BatchStat\<close> as
  filters: \<open>b\<close> joins group 1 after \<open>a\<close> has joined group 0. A value whose \<open>type\<close>
  attribute is no class makes the predicate of \<open>Param\<close> raise \<open>TypeError\<close>: after a
  filter that matches everything the value joins group 0 and that predicate is never
  asked; with that predicate alone the call raises, and still does when more pairs
  follow.
\<close>

theorem split_first_match_wins_witness:
  "compile_filters Inr [is_param Param, is_param BatchStat]
     = Inr [is_param Param, is_param BatchStat] \<and>
   split Inr [] [is_param Param, is_param BatchStat] = Inr [Map.empty, Map.empty] \<and>
   split Inr ([([KStr ''a''], VariableState Param (VInt 0))] @
              [([KStr ''b''], VariableState BatchStat (VBool True))])
         [is_param Param, is_param BatchStat]
     = Inr [[[KStr ''a''] \<mapsto> VariableState Param (VInt 0)],
            [[KStr ''b''] \<mapsto> VariableState BatchStat (VBool True)]] \<and>
   split Inr ([] @ [([KStr ''c''], \<lparr>cls = Class ''Odd'' [], attrs = [''type'' \<mapsto> VInt 0]\<rparr>)])
         [\<lambda>path value. Inr True, is_param Param]
     = Inr [[[KStr ''c''] \<mapsto> \<lparr>cls = Class ''Odd'' [], attrs = [''type'' \<mapsto> VInt 0]\<rparr>],
            Map.empty] \<and>
   split Inr ([] @ [([KStr ''c''], \<lparr>cls = Class ''Odd'' [], attrs = [''type'' \<mapsto> VInt 0]\<rparr>)])
         [is_param Param]
     = Inl TypeError \<and>
   split Inr ([([KStr ''c''], \<lparr>cls = Class ''Odd'' [], attrs = [''type'' \<mapsto> VInt 0]\<rparr>)] @
              [([KStr ''a''], VariableState Param (VInt 0))])
         [is_param Param]
     = Inl TypeError"
proof -
  let ?ps = "[is_param Param, is_param BatchStat]"
  let ?va = "VariableState Param (VInt 0)"
  let ?vb = "VariableState BatchStat (VBool True)"
  let ?vc = "\<lparr>cls = Class ''Odd'' [], attrs = [''type'' \<mapsto> VInt 0]\<rparr>"
  let ?g0 = "[[[KStr ''a''] \<mapsto> ?va], Map.empty]"
  let ?qs = "[\<lambda>path value. Inr True, is_param Param] :: predicate list"
  have c: "compile_filters Inr ?ps = Inr ?ps" by simp
  note T = split_first_match_wins[OF c]
  have 1: "split Inr [] ?ps = Inr [Map.empty, Map.empty]"
    using T[THEN conjunct1] by simp
  have s0: "split Inr [([KStr ''a''], ?va)] ?ps = Inr ?g0"
    by (simp add: notebook_defs)
  have p1: "(1::nat) < length ?ps" by simp
  have p2: "\<forall>j<1. (?ps ! j) [KStr ''b''] ?vb = Inr False"
    by (simp add: notebook_defs)
  have p3: "(?ps ! 1) [KStr ''b''] ?vb = Inr True"
    by (simp add: notebook_defs)
  have "split Inr ([([KStr ''a''], ?va)] @ [([KStr ''b''], ?vb)]) ?ps
          = Inr (?g0[1 := (?g0 ! 1)([KStr ''b''] \<mapsto> ?vb)])"
    using T[THEN conjunct2, THEN conjunct1] s0 p1 p2 p3 by blast
  then have 2: "split Inr ([([KStr ''a''], ?va)] @ [([KStr ''b''], ?vb)]) ?ps
          = Inr [[[KStr ''a''] \<mapsto> ?va], [[KStr ''b''] \<mapsto> ?vb]]"
    by simp
  have c': "compile_filters Inr ?qs = Inr ?qs" by simp
  note T' = split_first_match_wins[OF c']
  have e0: "split Inr [] ?qs = Inr [Map.empty, Map.empty]"
    using T'[THEN conjunct1] by simp
  have q1: "(0::nat) < length ?qs" by simp
  have q2: "\<forall>j<0. (?qs ! j) [KStr ''c''] ?vc = Inr False" by simp
  have q3: "(?qs ! 0) [KStr ''c''] ?vc = Inr True" by simp
  have "split Inr ([] @ [([KStr ''c''], ?vc)]) ?qs
          = Inr ([Map.empty, Map.empty][0 := ([Map.empty, Map.empty] ! 0)([KStr ''c''] \<mapsto> ?vc)])"
    using T'[THEN conjunct2, THEN conjunct1] e0 q1 q2 q3 by blast
  then have 3: "split Inr ([] @ [([KStr ''c''], ?vc)]) ?qs
          = Inr [[[KStr ''c''] \<mapsto> ?vc], Map.empty]"
    by simp
  have c'': "compile_filters Inr [is_param Param] = Inr [is_param Param]" by simp
  note T'' = split_first_match_wins[OF c'']
  have f0: "split Inr [] [is_param Param] = Inr [Map.empty]"
    using T''[THEN conjunct1] by simp
  have r1: "(0::nat) < length [is_param Param]" by simp
  have r2: "\<forall>j<0. ([is_param Param] ! j) [KStr ''c''] ?vc = Inr False" by simp
  have r3: "([is_param Param] ! 0) [KStr ''c''] ?vc = Inl TypeError"
    by (simp add: notebook_defs)
  have 4: "split Inr ([] @ [([KStr ''c''], ?vc)]) [is_param Param] = Inl TypeError"
    using T''[THEN conjunct2, THEN conjunct2, THEN conjunct1] f0 r1 r2 r3 by blast
  then have "split Inr [([KStr ''c''], ?vc)] [is_param Param] = Inl TypeError" by simp
  then have 5: "split Inr ([([KStr ''c''], ?vc)] @ [([KStr ''a''], ?va)]) [is_param Param]
                  = Inl TypeError"
    using T''[THEN conjunct2, THEN conjunct2, THEN conjunct2] by blast
  show ?thesis
    by (rule conjI c 1 2 3 4 5)+
qed

subsection \<open>Coverage\<close>

text \<open>
  C2. When the compiled predicates are collectively exhaustive on the flat state
  (their logical OR is true on every pair), \<open>split\<close> returns one group for each
  literal, every path of the state lies in exactly one group, the groups are
  pairwise disjoint and together they hold exactly the pairs of the state. The flat
  state holds every path once, as the flattening of a nested structure does.
\<close>

theorem split_exhaustive_partition:
  assumes "compile_filters to_pred filters = Inr predicates"
    and "distinct (map fst state)"
    and "\<forall>(path, value)\<in>set state. logical_or predicates path value = Inr True"
  shows "\<exists>flat_states. split to_pred state filters = Inr flat_states \<and>
           length flat_states = length filters \<and>
           (\<forall>(path, value)\<in>set state.
              \<exists>!i. i < length flat_states \<and> path \<in> dom (flat_states ! i)) \<and>
           (\<forall>i<length flat_states. \<forall>j<length flat_states.
              i \<noteq> j \<longrightarrow> dom (flat_states ! i) \<inter> dom (flat_states ! j) = {}) \<and>
           (\<Union>i<length flat_states. Map.graph (flat_states ! i)) = set state"
proof -
  from split_outer_exhaustive[OF assms(3), of "replicate (length predicates) Map.empty"]
  obtain gs where gs: "split to_pred state filters = Inr gs"
    using assms(1) by (auto simp: split_def)
  from split_invariant[OF gs assms(2)]
  have len: "length gs = length filters" and dis: "disjoint_groups gs"
    and asg: "assigned gs = set state" by simp_all
  have uniq: "\<forall>(path, value)\<in>set state. \<exists>!i. i < length gs \<and> path \<in> dom (gs ! i)"
  proof (clarify)
    fix path "value" assume "(path, value) \<in> set state"
    then have "(path, value) \<in> assigned gs" using asg by simp
    then obtain i where i: "i < length gs" "(gs ! i) path = Some value"
      by (auto simp: assigned_def)
    show "\<exists>!i. i < length gs \<and> path \<in> dom (gs ! i)"
    proof (rule ex1I[of _ i])
      show "i < length gs \<and> path \<in> dom (gs ! i)" using i by auto
    next
      fix j assume j: "j < length gs \<and> path \<in> dom (gs ! j)"
      show "j = i"
      proof (rule ccontr)
        assume "j \<noteq> i"
        then have "dom (gs ! j) \<inter> dom (gs ! i) = {}"
          using dis i(1) j by (simp add: disjoint_groups_def)
        then show False using i(2) j by auto
      qed
    qed
  qed
  from gs len uniq dis asg show ?thesis
    by (auto simp: disjoint_groups_def assigned_graph)
qed

text \<open>At the notebook's \<open>Foo\<close>, with the predicates of \<open>Param\<close> and \<open>BatchStat\<close>.\<close>

theorem split_exhaustive_partition_witness:
  "compile_filters Inr [is_param Param, is_param BatchStat]
     = Inr [is_param Param, is_param BatchStat] \<and>
   distinct (map fst foo_state) \<and>
   logical_or [is_param Param, is_param BatchStat] [KStr ''a''] (VariableState Param (VInt 0))
     = Inr True \<and>
   logical_or [is_param Param, is_param BatchStat] [KStr ''b''] (VariableState BatchStat (VBool True))
     = Inr True \<and>
   (\<exists>flat_states. split Inr foo_state [is_param Param, is_param BatchStat] = Inr flat_states \<and>
      length flat_states = 2 \<and>
      (\<exists>!i. i < length flat_states \<and> [KStr ''a''] \<in> dom (flat_states ! i)) \<and>
      (\<exists>!i. i < length flat_states \<and> [KStr ''b''] \<in> dom (flat_states ! i)) \<and>
      dom (flat_states ! 0) \<inter> dom (flat_states ! 1) = {} \<and>
      (\<Union>i<length flat_states. Map.graph (flat_states ! i)) = set foo_state)"
proof -
  let ?ps = "[is_param Param, is_param BatchStat]"
  have c: "compile_filters Inr ?ps = Inr ?ps" by simp
  have d: "distinct (map fst foo_state)" by (simp add: foo_state_def)
  have a: "logical_or ?ps [KStr ''a''] (VariableState Param (VInt 0)) = Inr True"
    by (simp add: notebook_defs)
  have b: "logical_or ?ps [KStr ''b''] (VariableState BatchStat (VBool True)) = Inr True"
    by (simp add: notebook_defs)
  have e: "\<forall>(path, value)\<in>set foo_state. logical_or ?ps path value = Inr True"
    using a b by (simp add: foo_state_def)
  from split_exhaustive_partition[OF c d e] obtain gs where
    G: "split Inr foo_state ?ps = Inr gs \<and>
        length gs = length ?ps \<and>
        (\<forall>(path, value)\<in>set foo_state. \<exists>!i. i < length gs \<and> path \<in> dom (gs ! i)) \<and>
        (\<forall>i<length gs. \<forall>j<length gs. i \<noteq> j \<longrightarrow> dom (gs ! i) \<inter> dom (gs ! j) = {}) \<and>
        (\<Union>i<length gs. Map.graph (gs ! i)) = set foo_state" ..
  note g1 = G[THEN conjunct1]
  note g2 = G[THEN conjunct2, THEN conjunct1]
  note g3 = G[THEN conjunct2, THEN conjunct2, THEN conjunct1]
  note g4 = G[THEN conjunct2, THEN conjunct2, THEN conjunct2, THEN conjunct1]
  note g5 = G[THEN conjunct2, THEN conjunct2, THEN conjunct2, THEN conjunct2]
  have l: "length gs = 2" using g2 by simp
  have ma: "([KStr ''a''], VariableState Param (VInt 0)) \<in> set foo_state"
    by (simp add: foo_state_def)
  have mb: "([KStr ''b''], VariableState BatchStat (VBool True)) \<in> set foo_state"
    by (simp add: foo_state_def)
  have ua: "\<exists>!i. i < length gs \<and> [KStr ''a''] \<in> dom (gs ! i)"
    using bspec[OF g3 ma] by simp
  have ub: "\<exists>!i. i < length gs \<and> [KStr ''b''] \<in> dom (gs ! i)"
    using bspec[OF g3 mb] by simp
  have "0 < length gs" and "1 < length gs" and "(0::nat) \<noteq> 1" using l by simp_all
  with g4 have dj: "dom (gs ! 0) \<inter> dom (gs ! 1) = {}" by blast
  show ?thesis
    by (rule conjI c d a b exI[of _ gs] g1 l ua ub dj g5)+
qed

subsection \<open>Unmatched entries\<close>

text \<open>
  C3. A pair on which no compiled predicate returns true makes \<open>split\<close> fail: the call
  returns an error and no groups, the pair is not dropped. With predicates that
  return booleans on the pairs of the state (the filter protocol), the error is the
  \<open>ValueError\<close> "No filter matched" that names the path and the value of a pair on
  which every predicate returns false. The loop raises at the first such pair: when
  the pairs before \<open>(path, value)\<close> are matched and every predicate returns false on
  it, the error names \<open>path\<close> and \<open>value\<close>.
\<close>

theorem split_unmatched_raises:
  assumes "compile_filters to_pred filters = Inr predicates"
    and "(path, value) \<in> set state"
    and "\<forall>q\<in>set predicates. q path value \<noteq> Inr True"
  shows "(\<exists>e. split to_pred state filters = Inl e) \<and>
    ((\<forall>(p, v)\<in>set state. \<forall>q\<in>set predicates. \<exists>b. q p v = Inr b) \<longrightarrow>
       (\<exists>p v. (p, v) \<in> set state \<and> (\<forall>q\<in>set predicates. q p v = Inr False) \<and>
          split to_pred state filters = Inl (ValueError p v))) \<and>
    (\<forall>before after.
       state = before @ (path, value) # after \<and>
       (\<forall>(p, v)\<in>set before. logical_or predicates p v = Inr True) \<and>
       (\<forall>q\<in>set predicates. q path value = Inr False)
       \<longrightarrow> split to_pred state filters = Inl (ValueError path value))"
proof (intro conjI allI impI)
  from assms(2) obtain b a where st: "state = b @ (path, value) # a"
    by (auto simp: in_set_conv_decomp)
  show fails: "\<exists>e. split to_pred state filters = Inl e"
  proof (cases "split_outer predicates b (replicate (length predicates) Map.empty)")
    case (Inl e)
    then show ?thesis using assms(1) st by (simp add: split_def split_outer_append)
  next
    case (Inr gs)
    from split_inner_not_true[OF assms(3), of 0 gs]
    obtain e where "split_inner (enumerate 0 predicates) path value gs = Inl e" by blast
    then show ?thesis using assms(1) st Inr by (simp add: split_def split_outer_append)
  qed
  assume bool: "\<forall>(p, v)\<in>set state. \<forall>q\<in>set predicates. \<exists>b. q p v = Inr b"
  from fails obtain e where e: "split to_pred state filters = Inl e" by blast
  then have "split_outer predicates state (replicate (length predicates) Map.empty) = Inl e"
    using assms(1) by (simp add: split_def)
  from split_outer_bool_fail[OF bool _ this] e
  show "\<exists>p v. (p, v) \<in> set state \<and> (\<forall>q\<in>set predicates. q p v = Inr False) \<and>
          split to_pred state filters = Inl (ValueError p v)"
    by auto
next
  fix before after
  assume a: "state = before @ (path, value) # after \<and>
       (\<forall>(p, v)\<in>set before. logical_or predicates p v = Inr True) \<and>
       (\<forall>q\<in>set predicates. q path value = Inr False)"
  then obtain gs where
    gs: "split_outer predicates before (replicate (length predicates) Map.empty) = Inr gs"
    using split_outer_exhaustive[of before predicates "replicate (length predicates) Map.empty"]
    by auto
  from a have "split_inner (enumerate 0 predicates) path value gs = Inl (ValueError path value)"
    by (simp add: split_inner_none)
  then show "split to_pred state filters = Inl (ValueError path value)"
    using assms(1) a gs by (simp add: split_def split_outer_append)
qed

text \<open>At the notebook's \<open>Foo\<close> with the predicate of \<open>Param\<close> as the single filter:
  \<open>b\<close>, a \<open>BatchStat\<close>, is matched by no filter.\<close>

theorem split_unmatched_raises_witness:
  "compile_filters Inr [is_param Param] = Inr [is_param Param] \<and>
   ([KStr ''b''], VariableState BatchStat (VBool True)) \<in> set foo_state \<and>
   is_param Param [KStr ''b''] (VariableState BatchStat (VBool True)) = Inr False \<and>
   split Inr foo_state [is_param Param]
     = Inl (ValueError [KStr ''b''] (VariableState BatchStat (VBool True)))"
proof -
  let ?va = "VariableState Param (VInt 0)"
  let ?vb = "VariableState BatchStat (VBool True)"
  have c: "compile_filters Inr [is_param Param] = Inr [is_param Param]" by simp
  have m: "([KStr ''b''], ?vb) \<in> set foo_state" by (simp add: foo_state_def)
  have f: "is_param Param [KStr ''b''] ?vb = Inr False" by (simp add: notebook_defs)
  have n: "\<forall>q\<in>set [is_param Param]. q [KStr ''b''] ?vb \<noteq> Inr True" using f by simp
  have n': "\<forall>q\<in>set [is_param Param]. q [KStr ''b''] ?vb = Inr False" using f by simp
  have st: "foo_state = [([KStr ''a''], ?va)] @ ([KStr ''b''], ?vb) # []"
    by (simp add: foo_state_def)
  have bf: "\<forall>(p, v)\<in>set [([KStr ''a''], ?va)]. logical_or [is_param Param] p v = Inr True"
    by (simp add: notebook_defs)
  from split_unmatched_raises[OF c m n, THEN conjunct2, THEN conjunct2] st bf n'
  have r: "split Inr foo_state [is_param Param] = Inl (ValueError [KStr ''b''] ?vb)" by blast
  show ?thesis
    by (rule conjI c m f r)+
qed

subsection \<open>Kinds and sub-kinds\<close>

text \<open>
  C4. The predicate of a kind \<open>K\<close> (\<open>is_param\<close> for the class \<open>K\<close>, which is what
  \<open>OfType K\<close> calls) returns true exactly when the class of the value is \<open>K\<close> or a
  sub-kind of \<open>K\<close>, or the value has a \<open>type\<close> attribute that is \<open>K\<close> or a sub-kind of
  \<open>K\<close>. In particular it matches the values of every sub-kind \<open>K'\<close> of \<open>K\<close>.
\<close>

theorem is_param_matches_kind_and_subkinds:
  "(is_param K path value = Inr True \<longleftrightarrow>
      derives\<^sup>*\<^sup>* (cls value) K \<or>
      (\<exists>c. attrs value ''type'' = Some (VClass c) \<and> derives\<^sup>*\<^sup>* c K)) \<and>
   (\<forall>K'. derives\<^sup>*\<^sup>* K' K \<and> (cls value = K' \<or> attrs value ''type'' = Some (VClass K'))
      \<longrightarrow> is_param K path value = Inr True)"
  unfolding is_param_True_iff issubclass_iff_rtranclp by blast

theorem is_param_matches_kind_and_subkinds_witness:
  "derives\<^sup>*\<^sup>* SpecialParam Param \<and>
   is_param Param [KStr ''b''] (VariableState SpecialParam (VInt 0)) = Inr True \<and>
   is_param Param [KStr ''b''] \<lparr>cls = SpecialParam, attrs = [''value'' \<mapsto> VInt 0]\<rparr> = Inr True"
proof -
  have a: "attrs (VariableState SpecialParam (VInt 0)) ''type'' = Some (VClass SpecialParam)"
    by (simp add: VariableState_def)
  have b: "cls \<lparr>cls = SpecialParam, attrs = [''value'' \<mapsto> VInt 0]\<rparr> = SpecialParam"
    by simp
  from is_param_matches_kind_and_subkinds
    [of Param "[KStr ''b'']" "VariableState SpecialParam (VInt 0)"]
    is_param_matches_kind_and_subkinds
    [of Param "[KStr ''b'']" "\<lparr>cls = SpecialParam, attrs = [''value'' \<mapsto> VInt 0]\<rparr>"]
    derives_SpecialParam a b
  show ?thesis by blast
qed

subsection \<open>Order sensitivity\<close>

text \<open>
  C5. Let \<open>SpecialK\<close> derive from \<open>K\<close>, let \<open>a\<close> be a single entry of kind \<open>SpecialK\<close>
  (an instance of it, or a value whose \<open>type\<close> is \<open>SpecialK\<close>), and let the filters
  \<open>fK\<close> and \<open>fS\<close> compile to the predicates of the kinds \<open>K\<close> and \<open>SpecialK\<close>. With the
  filters \<open>K, SpecialK\<close> the entry lands in group 0, the group of \<open>K\<close>, and group 1
  stays empty; with the filters \<open>SpecialK, K\<close> it lands in group 0, the group of
  \<open>SpecialK\<close>, and group 1 stays empty.
\<close>

theorem split_order_sensitive:
  assumes "derives\<^sup>+\<^sup>+ SpecialK K"
    and "cls a = SpecialK \<or> attrs a ''type'' = Some (VClass SpecialK)"
    and "to_pred fK = Inr (is_param K)" and "to_pred fS = Inr (is_param SpecialK)"
  shows "split to_pred [(p, a)] [fK, fS] = Inr [[p \<mapsto> a], Map.empty] \<and>
         split to_pred [(p, a)] [fS, fK] = Inr [[p \<mapsto> a], Map.empty]"
proof -
  have sub: "issubclass SpecialK K"
    using assms(1) by (rule tranclp_imp_issubclass)
  have 1: "is_param K p a = Inr True"
    using assms(2) sub by (auto simp: is_param_True_iff)
  have 2: "is_param SpecialK p a = Inr True"
    using assms(2) issubclass_refl[of SpecialK] by (auto simp: is_param_True_iff)
  show ?thesis
    by (simp add: split_def assms(3,4) 1 2)
qed

text \<open>The notebook's \<open>SpecialParam\<close> and \<open>Param\<close>, with their predicates as filters.\<close>

theorem split_order_sensitive_witness:
  "derives\<^sup>+\<^sup>+ SpecialParam Param \<and>
   attrs (VariableState SpecialParam (VInt 0)) ''type'' = Some (VClass SpecialParam) \<and>
   split Inr [([KStr ''b''], VariableState SpecialParam (VInt 0))]
         [is_param Param, is_param SpecialParam]
     = Inr [[[KStr ''b''] \<mapsto> VariableState SpecialParam (VInt 0)], Map.empty] \<and>
   split Inr [([KStr ''b''], VariableState SpecialParam (VInt 0))]
         [is_param SpecialParam, is_param Param]
     = Inr [[[KStr ''b''] \<mapsto> VariableState SpecialParam (VInt 0)], Map.empty]"
proof -
  have a: "derives\<^sup>+\<^sup>+ SpecialParam Param"
    using derives_SpecialParam by (rule tranclp.r_into_trancl)
  have t: "attrs (VariableState SpecialParam (VInt 0)) ''type'' = Some (VClass SpecialParam)"
    by (simp add: VariableState_def)
  have b: "cls (VariableState SpecialParam (VInt 0)) = SpecialParam \<or>
           attrs (VariableState SpecialParam (VInt 0)) ''type'' = Some (VClass SpecialParam)"
    using t by simp
  have k: "Inr (is_param Param) = (Inr (is_param Param) :: error + predicate)"
    and s: "Inr (is_param SpecialParam) = (Inr (is_param SpecialParam) :: error + predicate)"
    by simp_all
  note T = split_order_sensitive
    [where to_pred=Inr and fK="is_param Param" and fS="is_param SpecialParam"
       and K=Param and SpecialK=SpecialParam and a="VariableState SpecialParam (VInt 0)"
       and p="[KStr ''b'']", OF a b k s]
  show ?thesis
    by (rule conjI a t T[THEN conjunct1] T[THEN conjunct2])+
qed

subsection \<open>Lists of literals\<close>

text \<open>
  C6. Let the literals \<open>L1, ..., Ln\<close> compile to the predicates \<open>P1, ..., Pn\<close>. The
  list (or tuple) \<open>[L1, ..., Ln]\<close> compiles to a predicate \<open>P\<close> that is the logical OR
  of the \<open>Pi\<close>: on a pair on which the \<open>Pi\<close> return booleans, \<open>P\<close> returns true if and
  only if at least one \<open>Pi\<close> does. Whatever the \<open>Pi\<close> do, \<open>P\<close> returns true exactly when
  some \<open>Pi\<close> returns true after every predicate before it has returned false.
  Nothing here needs the list to be non-empty.
\<close>

theorem list_literal_is_or:
  assumes "list_all2 (\<lambda>l p. to_predicate l = Inr p) ls ps"
  shows "\<exists>P. to_predicate (ListLit ls) = Inr P \<and>
           (\<forall>path value.
              ((\<forall>q\<in>set ps. \<exists>b. q path value = Inr b) \<longrightarrow>
                 P path value = Inr (\<exists>q\<in>set ps. q path value = Inr True)) \<and>
              (P path value = Inr True \<longleftrightarrow>
                 (\<exists>i<length ps. (ps ! i) path value = Inr True \<and>
                    (\<forall>j<i. (ps ! j) path value = Inr False))))"
  using all2_imp_to_predicate_list[OF assms] logical_or_True_iff logical_or_bool
  by (auto simp: Any_of_def)

text \<open>The notebook's \<^verbatim>\<open>(nnx.Param, 'dropout')\<close>, on a \<open>Param\<close> and on a \<open>BatchStat\<close>.\<close>

theorem list_literal_is_or_witness:
  "list_all2 (\<lambda>l p. to_predicate l = Inr p)
     [KindLit Param, StrLit ''dropout''] [OfType Param, WithTag ''dropout''] \<and>
   (\<exists>P. to_predicate (ListLit [KindLit Param, StrLit ''dropout'']) = Inr P \<and>
      P [KStr ''a''] (VariableState Param (VInt 0)) = Inr True \<and>
      P [KStr ''b''] (VariableState BatchStat (VBool True)) = Inr False)"
proof -
  let ?ps = "[OfType Param, WithTag ''dropout'']"
  let ?va = "VariableState Param (VInt 0)"
  let ?vb = "VariableState BatchStat (VBool True)"
  have h: "list_all2 (\<lambda>l p. to_predicate l = Inr p)
     [KindLit Param, StrLit ''dropout''] ?ps" by simp
  from list_literal_is_or[OF h] obtain P where
    P: "to_predicate (ListLit [KindLit Param, StrLit ''dropout'']) = Inr P"
    and or: "\<And>path value. (\<forall>q\<in>set ?ps. \<exists>b. q path value = Inr b) \<Longrightarrow>
                 P path value = Inr (\<exists>q\<in>set ?ps. q path value = Inr True)"
    by blast
  have a: "P [KStr ''a''] ?va = Inr (\<exists>q\<in>set ?ps. q [KStr ''a''] ?va = Inr True)"
    by (rule or) (auto simp add: notebook_defs WithTag_def)
  have b: "P [KStr ''b''] ?vb = Inr (\<exists>q\<in>set ?ps. q [KStr ''b''] ?vb = Inr True)"
    by (rule or) (auto simp add: notebook_defs WithTag_def)
  have "P [KStr ''a''] ?va = Inr True"
    unfolding a by (simp add: notebook_defs WithTag_def)
  moreover have "P [KStr ''b''] ?vb = Inr False"
    unfolding b by (simp add: notebook_defs WithTag_def)
  ultimately show ?thesis using h P by blast
qed

subsection \<open>The sentinels\<close>

text \<open>
  C7. The compiled match-all sentinel returns true for every (path, value) pair, and
  the compiled match-none sentinel returns false for every pair.
\<close>

theorem sentinels_match_all_and_none:
  "(\<exists>P. to_predicate MatchAll = Inr P \<and> (\<forall>path value. P path value = Inr True)) \<and>
   (\<exists>P. to_predicate MatchNone = Inr P \<and> (\<forall>path value. P path value = Inr False))"
  by (simp add: Everything_def Nothing_def)

subsection \<open>Invalid literals\<close>

text \<open>
  C8. When one of the filters is, or contains, a literal of no recognized form, \<open>split\<close>
  fails with \<open>InvalidFilterLiteral\<close> whatever the flat state is: every literal is
  compiled before the first pair is looked at, so no pair is evaluated or stored, and
  no error a pair would cause is ever seen.
\<close>

theorem split_invalid_literal_first:
  assumes "list_ex unrecognized filters"
  shows "split to_predicate state filters = Inl InvalidFilterLiteral"
  using assms unrecognized_fails(2)[of filters]
  by (simp add: split_def to_predicate_list_eq)

text \<open>An invalid literal after a valid one, at the top and inside a list; the state
  holds \<open>b\<close>, which the filter \<open>Param\<close> alone would leave unmatched.\<close>

theorem split_invalid_literal_first_witness:
  "list_ex unrecognized [KindLit Param, UnrecognizedLit] \<and>
   split to_predicate foo_state [KindLit Param, UnrecognizedLit] = Inl InvalidFilterLiteral \<and>
   list_ex unrecognized [KindLit Param, ListLit [MatchAll, UnrecognizedLit]] \<and>
   split to_predicate foo_state [KindLit Param, ListLit [MatchAll, UnrecognizedLit]]
     = Inl InvalidFilterLiteral"
proof -
  have a: "list_ex unrecognized [KindLit Param, UnrecognizedLit]" by simp
  have b: "list_ex unrecognized [KindLit Param, ListLit [MatchAll, UnrecognizedLit]]" by simp
  from a b split_invalid_literal_first[OF a, of foo_state]
    split_invalid_literal_first[OF b, of foo_state]
  show ?thesis by blast
qed

subsection \<open>Disjoint groups\<close>

text \<open>
  C9. Whatever the literals are, exhaustive or not, overlapping or not: the groups
  \<open>split\<close> returns are pairwise disjoint, no path lies in two of them. The flat state
  holds every path once.
\<close>

theorem split_groups_pairwise_disjoint:
  assumes "split to_pred state filters = Inr flat_states" and "distinct (map fst state)"
  shows "\<forall>i<length flat_states. \<forall>j<length flat_states.
           i \<noteq> j \<longrightarrow> dom (flat_states ! i) \<inter> dom (flat_states ! j) = {}"
  using split_invariant[OF assms] by (simp add: disjoint_groups_def)

text \<open>The notebook's \<open>Bar\<close> with the overlapping predicates of \<open>SpecialParam\<close> and
  \<open>Param\<close> as filters.\<close>

theorem split_groups_pairwise_disjoint_witness:
  "split Inr bar_state [is_param SpecialParam, is_param Param] =
     Inr [[[KStr ''b''] \<mapsto> VariableState SpecialParam (VInt 0)],
          [[KStr ''a''] \<mapsto> VariableState Param (VInt 0)]] \<and>
   distinct (map fst bar_state) \<and>
   dom [[KStr ''b''] \<mapsto> VariableState SpecialParam (VInt 0)] \<inter>
   dom [[KStr ''a''] \<mapsto> VariableState Param (VInt 0)] = {}"
proof -
  let ?g0 = "[[KStr ''b''] \<mapsto> VariableState SpecialParam (VInt 0)]"
  let ?g1 = "[[KStr ''a''] \<mapsto> VariableState Param (VInt 0)]"
  have s: "split Inr bar_state [is_param SpecialParam, is_param Param] = Inr [?g0, ?g1]"
    by (simp add: notebook_defs)
  have d: "distinct (map fst bar_state)" by (simp add: bar_state_def)
  have "(0::nat) < length [?g0, ?g1]" and "(1::nat) < length [?g0, ?g1]" and "(0::nat) \<noteq> 1"
    by simp_all
  with split_groups_pairwise_disjoint[OF s d]
  have "dom ([?g0, ?g1] ! 0) \<inter> dom ([?g0, ?g1] ! 1) = {}" by blast
  then have j: "dom ?g0 \<inter> dom ?g1 = {}" by simp
  show ?thesis
    by (rule conjI s d j)+
qed

subsection \<open>The guard of \<open>is_param\<close>\<close>

text \<open>
  C10. On a value that is no instance of the requested class and has no \<open>type\<close>
  attribute, \<open>is_param\<close> returns false: the \<open>hasattr\<close> test keeps \<open>value.type\<close>,
  which alone would raise \<open>AttributeError\<close>, from being evaluated.
\<close>

theorem is_param_guarded:
  assumes "\<not> isinstance value K" and "\<not> hasattr value ''type''"
  shows "is_param K path value = Inr False \<and> getattr value ''type'' = Inl AttributeError"
  using assms by (simp add: is_param_def hasattr_def getattr_def)

theorem is_param_guarded_witness:
  "\<not> isinstance \<lparr>cls = Class ''Array'' [], attrs = Map.empty\<rparr> Param \<and>
   \<not> hasattr \<lparr>cls = Class ''Array'' [], attrs = Map.empty\<rparr> ''type'' \<and>
   is_param Param [KStr ''a''] \<lparr>cls = Class ''Array'' [], attrs = Map.empty\<rparr> = Inr False \<and>
   getattr \<lparr>cls = Class ''Array'' [], attrs = Map.empty\<rparr> ''type'' = Inl AttributeError"
proof -
  have a: "\<not> isinstance \<lparr>cls = Class ''Array'' [], attrs = Map.empty\<rparr> Param"
    by (simp add: isinstance_def Param_def)
  have b: "\<not> hasattr \<lparr>cls = Class ''Array'' [], attrs = Map.empty\<rparr> ''type''"
    by (simp add: hasattr_def)
  show ?thesis
    using a b is_param_guarded [OF a b, of "[KStr ''a'']"] by simp
qed

end
